theory Spec2Isabelle
  imports Complex_Main "HOL-Library.Log_Nat"
begin

section \<open>Python values used by app.py\<close>

text \<open>
  The exceptions the modelled functions can raise. \<open>KeyError\<close> comes from \<open>d['status']\<close>,
  \<open>ValueError\<close> from \<open>int(...)\<close> on a string that is not an integer literal,
  \<open>OverflowError\<close> from a true division of integers whose quotient is outside the range
  of a float, or from the conversion of such an integer to a float.
\<close>

datatype error = KeyError | ValueError | OverflowError

subsection \<open>\<open>str(n)\<close> and \<open>int(s)\<close>\<close>

definition digit_char :: "nat \<Rightarrow> char" where
  "digit_char d = char_of (48 + d)"

definition is_digit :: "char \<Rightarrow> bool" where
  "is_digit c = (48 \<le> (of_char c :: nat) \<and> (of_char c :: nat) \<le> 57)"

definition digit_val :: "char \<Rightarrow> nat" where
  "digit_val c = of_char c - 48"

text \<open>The decimal digits of a natural number, most significant first.\<close>

fun str_nat :: "nat \<Rightarrow> string" where
  "str_nat n = (if n < 10 then [digit_char n] else str_nat (n div 10) @ [digit_char (n mod 10)])"

declare str_nat.simps [simp del]

text \<open>\<open>str(i)\<close>, which is also what \<open>f"{i}"\<close> renders for an integer \<open>i\<close>.\<close>

definition str_int :: "int \<Rightarrow> string" where
  "str_int i = (if i < 0 then CHR ''-'' # str_nat (nat (- i)) else str_nat (nat i))"

text \<open>
  The characters \<open>int(s)\<close> strips from both ends of an ASCII string \<open>s\<close>: tab, line
  feed, vertical tab, form feed, carriage return, and the space.
\<close>

definition is_space :: "char \<Rightarrow> bool" where
  "is_space c = ((9 \<le> (of_char c :: nat) \<and> (of_char c :: nat) \<le> 13)
                 \<or> (of_char c :: nat) = 32)"

definition strip :: "string \<Rightarrow> string" where
  "strip s = rev (dropWhile is_space (rev (dropWhile is_space s)))"

text \<open>
  The digit part of an integer literal: at least one digit, and single underscores
  between digits only.
\<close>

fun grouped :: "string \<Rightarrow> bool" where
  "grouped [] = False"
| "grouped [c] = is_digit c"
| "grouped (c # d # cs) =
     (is_digit c \<and> (if d = CHR ''_'' then grouped cs else grouped (d # cs)))"

definition digits_value :: "string \<Rightarrow> nat" where
  "digits_value s = foldl (\<lambda>a c. 10 * a + digit_val c) 0 (filter (\<lambda>c. c \<noteq> CHR ''_'') s)"

text \<open>\<open>int(s)\<close> for a string \<open>s\<close>, in base ten; \<open>None\<close> is the \<open>ValueError\<close>.\<close>

definition py_int :: "string \<Rightarrow> int option" where
  "py_int s =
     (case strip s of
        [] \<Rightarrow> None
      | c # r \<Rightarrow>
          if c = CHR ''-'' then (if grouped r then Some (- int (digits_value r)) else None)
          else if c = CHR ''+'' then (if grouped r then Some (int (digits_value r)) else None)
          else if grouped (c # r) then Some (int (digits_value (c # r))) else None)"

subsection \<open>\<open>s.replace(old, new)\<close> and \<open>s.upper()\<close>\<close>

text \<open>
  Occurrences of \<open>old\<close> are replaced from left to right and do not overlap. For the
  empty \<open>old\<close>, Python puts \<open>new\<close> before every character and at the end.
\<close>

function replace_all :: "string \<Rightarrow> string \<Rightarrow> string \<Rightarrow> string" where
  "replace_all old new [] = (if old = [] then new else [])"
| "replace_all old new (c # cs) =
     (if old = [] then new @ c # replace_all old new cs
      else if take (length old) (c # cs) = old
           then new @ replace_all old new (drop (length old) (c # cs))
      else c # replace_all old new cs)"
  by pat_completeness auto
termination
  by (relation "measure (\<lambda>(old, new, s). length s)") (auto simp: Suc_le_eq)

declare replace_all.simps [simp del]

text \<open>\<open>s.upper()\<close> on the ASCII letters; every other byte is left as it is.\<close>

definition upper_char :: "char \<Rightarrow> char" where
  "upper_char c = (if 97 \<le> (of_char c :: nat) \<and> (of_char c :: nat) \<le> 122
                   then char_of ((of_char c :: nat) - 32) else c)"

definition upper :: "string \<Rightarrow> string" where
  "upper s = map upper_char s"

section \<open>The format catalog: \<open>get_available_formats\<close>\<close>

text \<open>
  One entry of \<open>info['formats']\<close>. For \<open>vcodec\<close>, \<open>height\<close> and \<open>filesize\<close> a field
  is \<open>None\<close> when the key is absent or holds Python's \<open>None\<close>; \<open>f.get(k)\<close> reads both
  as \<open>None\<close>. For \<open>format_note\<close> and \<open>ext\<close> a field is \<open>None\<close> when the key is absent
  only: a key that is present holds a string, as the extraction library fills it, and
  an entry whose \<open>ext\<close> or \<open>format_note\<close> key holds Python's \<open>None\<close> is not a value of
  this type. Heights and file sizes are integers, codec, note and container are strings.
\<close>

record raw_format =
  vcodec :: "string option"
  height :: "int option"
  format_note :: "string option"
  ext :: "string option"
  filesize :: "int option"

text \<open>The metadata structure; \<open>formats = None\<close> is a dictionary without the key.\<close>

record video_info =
  formats :: "raw_format list option"

text \<open>The dictionary appended for a kept format, with its four keys.\<close>

record format_option =
  quality :: string
  format :: string
  note_str :: string
  size_str :: string

text \<open>Truthiness of \<open>f.get('height')\<close> and of \<open>filesize\<close>: present and not zero.\<close>

definition truthy :: "int option \<Rightarrow> bool" where
  "truthy v = (case v of None \<Rightarrow> False | Some n \<Rightarrow> n \<noteq> 0)"

definition size_mb :: "int option \<Rightarrow> string" where
  "size_mb fs = (if truthy fs then '' ('' @ str_int (the fs div (1024 * 1024)) @ '' MB)'' else '''')"

definition make_option :: "raw_format \<Rightarrow> format_option" where
  "make_option f =
     \<lparr> quality = str_int (the (height f)) @ ''p'',
       format = upper (case ext f of None \<Rightarrow> '''' | Some e \<Rightarrow> e),
       note_str = (case format_note f of None \<Rightarrow> '''' | Some n \<Rightarrow> n),
       size_str = size_mb (filesize f) \<rparr>"

text \<open>
  The loop over \<open>info['formats']\<close>, with the list \<open>formats\<close> built so far and the set
  \<open>seen_qualities\<close>.
\<close>

fun collect :: "raw_format list \<Rightarrow> format_option list \<Rightarrow> int set \<Rightarrow> format_option list" where
  "collect [] acc seen = acc"
| "collect (f # fs) acc seen =
     (if vcodec f \<noteq> Some ''none'' \<and> truthy (height f) then
        (let q = the (height f) in
           if q \<notin> seen \<and> q \<le> 1080
           then collect fs (acc @ [make_option f]) (insert q seen)
           else collect fs acc seen)
      else collect fs acc seen)"

text \<open>The sort key \<open>int(x['quality'].replace('p', ''))\<close>.\<close>

definition quality_key :: "format_option \<Rightarrow> int option" where
  "quality_key x = py_int (replace_all ''p'' '''' (quality x))"

text \<open>
  \<open>formats.sort(key=..., reverse=True)\<close>: the keys are computed first, for every element
  (a failing \<open>int\<close> raises), then the list is sorted by descending key, elements with
  equal keys keeping their order.
\<close>

definition sort_by_quality :: "format_option list \<Rightarrow> error + format_option list" where
  "sort_by_quality xs =
     (case those (map quality_key xs) of
        None \<Rightarrow> Inl ValueError
      | Some ks \<Rightarrow> Inr (map snd (sort_key (\<lambda>p. - fst p) (zip ks xs))))"

definition get_available_formats :: "video_info \<Rightarrow> error + format_option list" where
  "get_available_formats info =
     sort_by_quality (case formats info of None \<Rightarrow> [] | Some fs \<Rightarrow> collect fs [] {})"

section \<open>Floats\<close>

text \<open>
  A Python float is an IEEE 754 binary64 number. A finite float is given by its exact
  value, a rational; an arithmetic result is the exact result rounded to the nearest
  float, ties to the even significand.
\<close>

definition round_half_even :: "rat \<Rightarrow> int" where
  "round_half_even y =
     (let f = \<lfloor>y\<rfloor>; r = y - of_int f
      in if r < 1 / 2 then f else if 1 / 2 < r then f + 1 else if even f then f else f + 1)"

text \<open>For \<open>x > 0\<close>, the integer \<open>e\<close> with \<open>2 ^ e \<le> x < 2 ^ (e + 1)\<close>.\<close>

definition ilog2 :: "rat \<Rightarrow> int" where
  "ilog2 x =
     (let (a, b) = quotient_of x;
          e = bitlen a - bitlen b
      in if 2 powi e \<le> x then e else e - 1)"

text \<open>
  Rounding to 53 significant bits, with the spacing of the subnormal numbers,
  \<open>2 ^ -1074\<close>, as the smallest one. The exponent is not bounded above here.
\<close>

definition round64 :: "rat \<Rightarrow> rat" where
  "round64 x =
     (if x = 0 then 0
      else let e = max (ilog2 \<bar>x\<bar> - 52) (- 1074); q = 2 powi e
           in sgn x * of_int (round_half_even (\<bar>x\<bar> / q)) * q)"

datatype pyfloat = Finite rat | PosInf | NegInf

text \<open>
  A rounded result of magnitude \<open>2 ^ 1024\<close> or more, that is one whose binary exponent
  \<open>ilog2\<close> is at least 1024, is an infinity.
\<close>

definition to_float :: "rat \<Rightarrow> pyfloat" where
  "to_float x =
     (let y = round64 x
      in if y = 0 \<or> ilog2 \<bar>y\<bar> < 1024 then Finite y
         else if 0 < y then PosInf else NegInf)"

text \<open>\<open>float(x)\<close> for an integer (or a float, which it leaves as it is).\<close>

definition as_float :: "rat \<Rightarrow> error + rat" where
  "as_float x = (case to_float x of Finite y \<Rightarrow> Inr y | _ \<Rightarrow> Inl OverflowError)"

text \<open>
  \<open>a / b\<close> for two integers with \<open>b \<noteq> 0\<close>: the quotient, rounded once; Python raises
  OverflowError when it is too large for a float.
\<close>

definition int_truediv :: "int \<Rightarrow> int \<Rightarrow> error + rat" where
  "int_truediv a b = as_float (of_int a / of_int b)"

text \<open>The product of two finite floats.\<close>

definition float_mul :: "rat \<Rightarrow> rat \<Rightarrow> pyfloat" where
  "float_mul x y = to_float (x * y)"

text \<open>\<open>f"{x:.1f}"\<close> for a finite float \<open>x\<close>: one digit after the point.\<close>

definition fixed1 :: "rat \<Rightarrow> string" where
  "fixed1 x =
     (let n = round_half_even (\<bar>x\<bar> * 10)
      in (if x < 0 then ''-'' else '''') @ str_nat (nat (n div 10)) @ ''.'' @ str_nat (nat (n mod 10)))"

text \<open>\<open>f"{n:02d}"\<close> for an integer \<open>n\<close>.\<close>

definition pad2 :: "int \<Rightarrow> string" where
  "pad2 n = (let s = str_int n in replicate (2 - length s) (CHR ''0'') @ s)"

section \<open>The progress mirror: \<open>DownloadProgress\<close> and \<open>progress_hook\<close>\<close>

record DownloadProgress =
  downloaded_bytes :: int
  total_bytes :: int
  speed :: rat
  eta :: int
  percentage :: pyfloat
  status :: string

text \<open>\<open>DownloadProgress()\<close>, the defaults of the dataclass.\<close>

definition new_progress :: DownloadProgress where
  "new_progress =
     \<lparr> downloaded_bytes = 0, total_bytes = 0, speed = 0, eta = 0,
       percentage = Finite 0, status = ''idle'' \<rparr>"

text \<open>
  The event dictionary \<open>d\<close> that the library passes to the hook. A field is \<open>None\<close>
  when the key is absent; \<open>total_bytes\<close>, \<open>speed\<close> and \<open>eta\<close> are also \<open>None\<close> when the
  key holds Python's \<open>None\<close>, which the \<open>or\<close> of the source treats as an absent key.
  Byte counts and the remaining time are integers, as the annotations of
  \<open>DownloadProgress\<close> say; the speed is a finite float.
\<close>

record progress_event =
  d_status :: "string option"
  d_downloaded_bytes :: "int option"
  d_total_bytes :: "int option"
  d_total_bytes_estimate :: "int option"
  d_speed :: "rat option"
  d_eta :: "int option"

text \<open>\<open>d.get('downloaded_bytes', 0)\<close>.\<close>

definition event_downloaded :: "progress_event \<Rightarrow> int" where
  "event_downloaded d = (case d_downloaded_bytes d of None \<Rightarrow> 0 | Some n \<Rightarrow> n)"

text \<open>\<open>d.get('total_bytes', 0) or d.get('total_bytes_estimate', 0)\<close>.\<close>

definition event_total :: "progress_event \<Rightarrow> int" where
  "event_total d =
     (if truthy (d_total_bytes d) then the (d_total_bytes d)
      else (case d_total_bytes_estimate d of None \<Rightarrow> 0 | Some n \<Rightarrow> n))"

text \<open>
  The hook, on the global \<open>progress_tracker\<close>: it returns the exception raised, if any,
  and the tracker as the call leaves it. A status other than the three named ones
  changes nothing.
\<close>

definition progress_hook ::
    "progress_event \<Rightarrow> DownloadProgress \<Rightarrow> error option \<times> DownloadProgress" where
  "progress_hook d t =
     (case d_status d of
        None \<Rightarrow> (Some KeyError, t)
      | Some s \<Rightarrow>
          if s = ''downloading'' then
            (let t1 = t\<lparr> status := ''downloading'',
                         downloaded_bytes := event_downloaded d,
                         total_bytes := event_total d,
                         speed := (case d_speed d of None \<Rightarrow> 0 | Some v \<Rightarrow> v),
                         eta := (case d_eta d of None \<Rightarrow> 0 | Some n \<Rightarrow> n) \<rparr>
             in if total_bytes t1 > 0 then
                  (case int_truediv (downloaded_bytes t1) (total_bytes t1) of
                     Inl e \<Rightarrow> (Some e, t1)
                   | Inr r \<Rightarrow> (None, t1\<lparr> percentage := float_mul r 100 \<rparr>))
                else (None, t1\<lparr> percentage := Finite 0 \<rparr>))
          else if s = ''finished'' then
            (None, t\<lparr> status := ''finished'', percentage := Finite 100 \<rparr>)
          else if s = ''error'' then (None, t\<lparr> status := ''error'' \<rparr>)
          else (None, t))"

section \<open>\<open>format_bytes\<close> and \<open>format_time\<close>\<close>

text \<open>
  The argument is an integer or a finite float, given by its value. The loop over the
  units divides by \<open>1024.0\<close>, which first turns an integer into a float.
\<close>

fun units_loop :: "rat \<Rightarrow> string list \<Rightarrow> error + string" where
  "units_loop x [] = (case as_float x of Inl e \<Rightarrow> Inl e | Inr y \<Rightarrow> Inr (fixed1 y @ '' TB''))"
| "units_loop x (unit # units) =
     (if x < 1024 then
        (case as_float x of Inl e \<Rightarrow> Inl e | Inr y \<Rightarrow> Inr (fixed1 y @ '' '' @ unit))
      else
        (case as_float x of
           Inl e \<Rightarrow> Inl e
         | Inr y \<Rightarrow> (case as_float (y / 1024) of Inl e \<Rightarrow> Inl e | Inr z \<Rightarrow> units_loop z units)))"

definition format_bytes :: "rat \<Rightarrow> error + string" where
  "format_bytes bytes_val =
     (if bytes_val = 0 then Inr ''0 B''
      else units_loop bytes_val [''B'', ''KB'', ''MB'', ''GB''])"

text \<open>
  The argument of \<open>format_time\<close> is an integer or a finite float as well;
  \<open>int(seconds)\<close> truncates towards zero.
\<close>

definition py_trunc :: "rat \<Rightarrow> int" where
  "py_trunc x = (if 0 \<le> x then \<lfloor>x\<rfloor> else \<lceil>x\<rceil>)"

definition format_time :: "rat \<Rightarrow> string" where
  "format_time seconds =
     (if seconds \<le> 0 then ''Unknown''
      else
        (let n = py_trunc seconds;
             minutes = n div 60; secs = n mod 60;
             hours = minutes div 60; mins = minutes mod 60
         in if hours > 0 then pad2 hours @ '':'' @ pad2 mins @ '':'' @ pad2 secs
            else pad2 mins @ '':'' @ pad2 secs))"

section \<open>The download orchestrator: \<open>download_video\<close>\<close>

text \<open>The format-selection expression built from the quality selector.\<close>

definition format_selector :: "string \<Rightarrow> string" where
  "format_selector quality' =
     (if quality' = ''best'' then ''bestvideo[height<=1080]+bestaudio/best[height<=1080]''
      else
        (let height = replace_all ''p'' '''' quality'
         in ''bestvideo[height<='' @ height @ '']+bestaudio/best[height<='' @ height @ '']''))"

record ydl_opts =
  opt_format :: string
  opt_merge_output_format :: string
  opt_outtmpl :: string
  opt_quiet :: bool
  opt_no_warnings :: bool
  opt_noplaylist :: bool
  opt_progress_hooks :: "(progress_event \<Rightarrow> DownloadProgress \<Rightarrow> error option \<times> DownloadProgress) list"
  opt_postprocessors :: "(string \<times> string) list"

definition download_opts :: "string \<Rightarrow> ydl_opts" where
  "download_opts quality' =
     \<lparr> opt_format = format_selector quality',
       opt_merge_output_format = ''mp4'',
       opt_outtmpl = ''%(title)s.%(ext)s'',
       opt_quiet = True,
       opt_no_warnings = True,
       opt_noplaylist = True,
       opt_progress_hooks = [progress_hook],
       opt_postprocessors = [(''FFmpegVideoConvertor'', ''mp4'')] \<rparr>"

text \<open>The returned file name, from the one that \<open>prepare_filename\<close> gives.\<close>

definition final_filename :: "string \<Rightarrow> string" where
  "final_filename prepared = replace_all ''.mkv'' ''.mp4'' (replace_all ''.webm'' ''.mp4'' prepared)"

text \<open>
  \<open>download_video\<close>, with the two calls into the extraction library as parameters:
  \<open>extract_info\<close> downloads, runs the hooks on the tracker it is given and returns the
  metadata or the exception it raised; \<open>prepare_filename\<close> names the file. The tracker
  is reset first. An exception of the library is passed on.
\<close>

definition download_video ::
    "(ydl_opts \<Rightarrow> string \<Rightarrow> DownloadProgress \<Rightarrow> ('e + 'i) \<times> DownloadProgress) \<Rightarrow> ('i \<Rightarrow> string)
       \<Rightarrow> string \<Rightarrow> string \<Rightarrow> ('e + string \<times> 'i) \<times> DownloadProgress" where
  "download_video extract_info prepare_filename url quality' =
     (case extract_info (download_opts quality') url new_progress of
        (Inl e, t) \<Rightarrow> (Inl e, t)
      | (Inr info, t) \<Rightarrow> (Inr (final_filename (prepare_filename info), info), t))"

section \<open>Properties of the string functions\<close>

lemma is_digit_digit_char: "d < 10 \<Longrightarrow> is_digit (digit_char d)"
  by (simp add: is_digit_def digit_char_def)

lemma digit_val_digit_char: "d < 10 \<Longrightarrow> digit_val (digit_char d) = d"
  by (simp add: digit_val_def digit_char_def)

lemma str_nat_digits: "\<forall>c \<in> set (str_nat n). is_digit c"
proof (induction n rule: str_nat.induct)
  case (1 n)
  show ?case
  proof (cases "n < 10")
    case True
    then show ?thesis by (subst str_nat.simps) (simp add: is_digit_digit_char)
  next
    case False
    with "1" show ?thesis by (subst str_nat.simps) (simp add: is_digit_digit_char)
  qed
qed

lemma str_nat_nonempty: "str_nat n \<noteq> []"
  by (subst str_nat.simps) simp

lemma digit_not_special:
  "is_digit c \<Longrightarrow> \<not> is_space c \<and> c \<noteq> CHR ''_'' \<and> c \<noteq> CHR ''p'' \<and> c \<noteq> CHR ''-'' \<and> c \<noteq> CHR ''+''"
  by (auto simp: is_digit_def is_space_def)

lemma strip_id: "s \<noteq> [] \<Longrightarrow> \<not> is_space (hd s) \<Longrightarrow> \<not> is_space (last s) \<Longrightarrow> strip s = s"
proof -
  assume a: "s \<noteq> []" "\<not> is_space (hd s)" "\<not> is_space (last s)"
  have dw: "\<And>xs. xs \<noteq> [] \<Longrightarrow> \<not> is_space (hd xs) \<Longrightarrow> dropWhile is_space xs = xs"
  proof -
    fix xs :: string
    assume "xs \<noteq> []" "\<not> is_space (hd xs)"
    then show "dropWhile is_space xs = xs" by (cases xs) auto
  qed
  have 1: "dropWhile is_space s = s" using a dw by blast
  have "hd (rev s) = last s" using a by (simp add: hd_rev)
  then have 2: "dropWhile is_space (rev s) = rev s" using a dw [of "rev s"] by simp
  show ?thesis by (simp add: strip_def 1 2)
qed

lemma grouped_digits: "s \<noteq> [] \<Longrightarrow> \<forall>c \<in> set s. is_digit c \<Longrightarrow> grouped s"
  by (induction s rule: grouped.induct) (auto dest: digit_not_special)

lemma digits_value_snoc:
  "is_digit c \<Longrightarrow> digits_value (s @ [c]) = 10 * digits_value s + digit_val c"
  by (auto simp: digits_value_def dest: digit_not_special)

lemma digits_value_str_nat: "digits_value (str_nat n) = n"
proof (induction n rule: str_nat.induct)
  case (1 n)
  show ?case
  proof (cases "n < 10")
    case True
    then show ?thesis
      by (subst str_nat.simps) (simp add: digits_value_def digit_val_digit_char is_digit_digit_char digit_not_special)
  next
    case False
    with "1" show ?thesis
      by (subst str_nat.simps) (simp add: digits_value_snoc is_digit_digit_char digit_val_digit_char)
  qed
qed

lemma py_int_str_nat: "py_int (str_nat n) = Some (int n)"
proof -
  obtain c r where cr: "str_nat n = c # r" using str_nat_nonempty by (cases "str_nat n") auto
  have dig: "\<forall>c \<in> set (str_nat n). is_digit c" by (rule str_nat_digits)
  have "is_digit (hd (str_nat n))" "is_digit (last (str_nat n))"
    using dig str_nat_nonempty by auto
  then have "strip (str_nat n) = str_nat n"
    using strip_id str_nat_nonempty digit_not_special by blast
  then have st: "strip (c # r) = c # r" by (simp add: cr)
  have c: "is_digit c" using dig cr by simp
  have g: "grouped (c # r)" using grouped_digits [of "str_nat n"] dig str_nat_nonempty cr by simp
  show ?thesis
    using c g digits_value_str_nat [of n] digit_not_special [OF c]
    by (simp add: py_int_def st cr)
qed

lemma py_int_str_int: "py_int (str_int i) = Some i"
proof (cases "i < 0")
  case False
  then show ?thesis by (simp add: str_int_def py_int_str_nat)
next
  case True
  let ?s = "str_nat (nat (- i))"
  have dig: "\<forall>c \<in> set ?s. is_digit c" by (rule str_nat_digits)
  have ne: "?s \<noteq> []" by (rule str_nat_nonempty)
  have "is_digit (last ?s)" using dig ne by auto
  then have "\<not> is_space (last (CHR ''-'' # ?s))" using ne digit_not_special by simp
  moreover have "\<not> is_space (CHR ''-'')" by (simp add: is_space_def)
  ultimately have st: "strip (CHR ''-'' # ?s) = CHR ''-'' # ?s"
    using strip_id [of "CHR ''-'' # ?s"] by simp
  have g: "grouped ?s" using grouped_digits dig ne by blast
  show ?thesis using True g by (simp add: str_int_def py_int_def st digits_value_str_nat)
qed

lemma replace_all_absent: "old \<noteq> [] \<Longrightarrow> hd old \<notin> set s \<Longrightarrow> replace_all old new s = s"
proof (induction s)
  case Nil
  then show ?case by (simp add: replace_all.simps)
next
  case (Cons c cs)
  have "take (length old) (c # cs) \<noteq> old"
  proof
    assume "take (length old) (c # cs) = old"
    then have "hd old = c" using Cons.prems(1) by (cases old) auto
    then show False using Cons.prems(2) by simp
  qed
  then show ?case using Cons by (simp add: replace_all.simps)
qed

lemma str_int_no_p: "CHR ''p'' \<notin> set (str_int i)"
  using str_nat_digits digit_not_special by (auto simp: str_int_def)

lemma replace_p_snoc: "CHR ''p'' \<notin> set s \<Longrightarrow> replace_all ''p'' '''' (s @ ''p'') = s"
  by (induction s) (auto simp: replace_all.simps)

lemma quality_key_make_option: "quality_key (make_option f) = Some (the (height f))"
  by (simp add: quality_key_def make_option_def replace_p_snoc str_int_no_p py_int_str_int)


section \<open>Properties of the format catalog\<close>

lemma collect_shape:
  "\<exists>ks. collect fs acc seen = acc @ map make_option ks
        \<and> set ks \<subseteq> set fs
        \<and> distinct (map (\<lambda>f. the (height f)) ks)
        \<and> (\<forall>f \<in> set ks. the (height f) \<notin> seen \<and> the (height f) \<le> 1080
               \<and> truthy (height f) \<and> vcodec f \<noteq> Some ''none'')"
proof (induction fs arbitrary: acc seen)
  case Nil
  show ?case by (rule exI [of _ "[]"]) simp
next
  case (Cons f fs)
  let ?q = "the (height f)"
  show ?case
  proof (cases "vcodec f \<noteq> Some ''none'' \<and> truthy (height f) \<and> ?q \<notin> seen \<and> ?q \<le> 1080")
    case True
    from Cons.IH [of "acc @ [make_option f]" "insert ?q seen"]
    obtain ks where ks: "collect fs (acc @ [make_option f]) (insert ?q seen)
          = (acc @ [make_option f]) @ map make_option ks"
        "set ks \<subseteq> set fs" "distinct (map (\<lambda>f. the (height f)) ks)"
        "\<forall>g \<in> set ks. the (height g) \<notin> insert ?q seen \<and> the (height g) \<le> 1080
               \<and> truthy (height g) \<and> vcodec g \<noteq> Some ''none''"
      by blast
    have "collect (f # fs) acc seen = acc @ map make_option (f # ks)"
      using True ks(1) by simp
    moreover have "set (f # ks) \<subseteq> set (f # fs)" using ks(2) by auto
    moreover have "distinct (map (\<lambda>f. the (height f)) (f # ks))"
      using ks(3) ks(4) by auto
    moreover have "\<forall>g \<in> set (f # ks). the (height g) \<notin> seen \<and> the (height g) \<le> 1080
               \<and> truthy (height g) \<and> vcodec g \<noteq> Some ''none''"
      using True ks(4) by auto
    ultimately show ?thesis by blast
  next
    case False
    from Cons.IH [of acc seen]
    obtain ks where ks: "collect fs acc seen = acc @ map make_option ks"
        "set ks \<subseteq> set fs" "distinct (map (\<lambda>f. the (height f)) ks)"
        "\<forall>g \<in> set ks. the (height g) \<notin> seen \<and> the (height g) \<le> 1080
               \<and> truthy (height g) \<and> vcodec g \<noteq> Some ''none''"
      by blast
    have "collect (f # fs) acc seen = acc @ map make_option ks"
      using False ks(1) by (auto simp: Let_def)
    moreover have "set ks \<subseteq> set (f # fs)" using ks(2) by auto
    ultimately show ?thesis using ks(3) ks(4) by blast
  qed
qed

lemma those_map_Some: "those (map Some xs) = Some xs"
  by (induction xs) simp_all

lemma sort_by_quality_shape:
  assumes d: "distinct (map (\<lambda>f. the (height f)) ks)"
  shows "\<exists>ps. sort_by_quality (map make_option ks) = Inr (map snd ps)
           \<and> set ps = (\<lambda>f. (the (height f), make_option f)) ` set ks
           \<and> distinct (map fst ps) \<and> sorted_wrt (>) (map fst ps)"
proof -
  let ?hs = "map (\<lambda>f. the (height f)) ks"
  let ?zs = "zip ?hs (map make_option ks)"
  let ?ps = "sort_key (\<lambda>p. - fst p) ?zs"
  have keys: "map quality_key (map make_option ks) = map Some ?hs"
    by (simp add: quality_key_make_option)
  have out: "sort_by_quality (map make_option ks) = Inr (map snd ?ps)"
    by (simp only: sort_by_quality_def keys those_map_Some option.case)
  have zs: "?zs = map (\<lambda>f. (the (height f), make_option f)) ks"
    by (simp add: zip_map_map zip_same_conv_map)
  have set_ps: "set ?ps = (\<lambda>f. (the (height f), make_option f)) ` set ks"
    by (simp add: zs)
  have fst_zs: "map fst ?zs = ?hs" by simp
  have "distinct (map fst ?zs)" using d by (simp only: fst_zs)
  then have "distinct ?zs \<and> inj_on fst (set ?zs)" by (simp only: distinct_map)
  then have "distinct ?ps \<and> inj_on fst (set ?ps)" by simp
  then have dps: "distinct (map fst ?ps)" by (simp only: distinct_map)
  have "sorted (map (\<lambda>p. - fst p) ?ps)" by (rule sorted_sort_key)
  then have "sorted (map uminus (map fst ?ps))" by (simp add: comp_def)
  moreover have "distinct (map uminus (map fst ?ps))"
    using dps by (simp add: distinct_map del: map_map)
  ultimately have "sorted_wrt (<) (map uminus (map fst ?ps))"
    by (simp only: strict_sorted_iff)
  then have "sorted_wrt (>) (map fst ?ps)"
    by (simp add: sorted_wrt_map del: map_map)
  with out set_ps dps show ?thesis by blast
qed


lemma catalog_shape:
  "\<exists>ks ps. get_available_formats info = Inr (map snd ps)
       \<and> set ps = (\<lambda>f. (the (height f), make_option f)) ` set ks
       \<and> set ks \<subseteq> (case formats info of None \<Rightarrow> {} | Some fs \<Rightarrow> set fs)
       \<and> (\<forall>f \<in> set ks. the (height f) \<le> 1080 \<and> truthy (height f) \<and> vcodec f \<noteq> Some ''none'')
       \<and> distinct (map fst ps) \<and> sorted_wrt (>) (map fst ps)"
proof -
  obtain ks where ks:
      "(case formats info of None \<Rightarrow> [] | Some fs \<Rightarrow> collect fs [] {}) = map make_option ks"
      "set ks \<subseteq> (case formats info of None \<Rightarrow> {} | Some fs \<Rightarrow> set fs)"
      "distinct (map (\<lambda>f. the (height f)) ks)"
      "\<forall>f \<in> set ks. the (height f) \<le> 1080 \<and> truthy (height f) \<and> vcodec f \<noteq> Some ''none''"
  proof (cases "formats info")
    case None
    show ?thesis by (rule that [of "[]"]) (simp_all add: None)
  next
    case (Some fs)
    from collect_shape [of fs "[]" "{}"] obtain ks where
        "collect fs [] {} = map make_option ks" "set ks \<subseteq> set fs"
        "distinct (map (\<lambda>f. the (height f)) ks)"
        "\<forall>f \<in> set ks. the (height f) \<le> 1080 \<and> truthy (height f) \<and> vcodec f \<noteq> Some ''none''"
      by auto
    then show ?thesis using that [of ks] Some by simp
  qed
  from sort_by_quality_shape [OF ks(3)] obtain ps where ps:
      "sort_by_quality (map make_option ks) = Inr (map snd ps)"
      "set ps = (\<lambda>f. (the (height f), make_option f)) ` set ks"
      "distinct (map fst ps)" "sorted_wrt (>) (map fst ps)"
    by blast
  have "get_available_formats info = Inr (map snd ps)"
    by (simp only: get_available_formats_def ks(1) ps(1))
  with ks ps show ?thesis by blast
qed

text \<open>
  Claim C1. For every metadata structure, \<open>get_available_formats\<close> returns a list (it
  does not raise) whose entries are labelled \<open><h>p\<close> for heights \<open>hs\<close>, which are also
  the sort keys read back from the labels: no height occurs twice, every height is at
  most 1080, and the heights are strictly descending.
\<close>

theorem catalog_heights:
  "\<exists>out hs. get_available_formats info = Inr out
      \<and> map quality out = map (\<lambda>h. str_int h @ ''p'') hs
      \<and> map quality_key out = map Some hs
      \<and> distinct hs \<and> (\<forall>h \<in> set hs. h \<le> 1080) \<and> sorted_wrt (>) hs"
proof -
  from catalog_shape [of info] obtain ks ps where ps:
      "get_available_formats info = Inr (map snd ps)"
      "set ps = (\<lambda>f. (the (height f), make_option f)) ` set ks"
      "\<forall>f \<in> set ks. the (height f) \<le> 1080 \<and> truthy (height f) \<and> vcodec f \<noteq> Some ''none''"
      "distinct (map fst ps)" "sorted_wrt (>) (map fst ps)"
    by blast
  have each: "\<forall>p \<in> set ps. quality (snd p) = str_int (fst p) @ ''p''
       \<and> quality_key (snd p) = Some (fst p) \<and> fst p \<le> 1080"
  proof
    fix p assume "p \<in> set ps"
    then obtain f where f: "f \<in> set ks" "p = (the (height f), make_option f)"
      using ps(2) by auto
    have "quality (snd p) = str_int (fst p) @ ''p''" by (simp add: f(2) make_option_def)
    moreover have "quality_key (snd p) = Some (fst p)" by (simp add: f(2) quality_key_make_option)
    moreover have "fst p \<le> 1080" using ps(3) f by simp
    ultimately show "quality (snd p) = str_int (fst p) @ ''p''
       \<and> quality_key (snd p) = Some (fst p) \<and> fst p \<le> 1080" by blast
  qed
  have "map quality (map snd ps) = map (\<lambda>h. str_int h @ ''p'') (map fst ps)"
    using each by simp
  moreover have "map quality_key (map snd ps) = map Some (map fst ps)"
    using each by simp
  moreover have "\<forall>h \<in> set (map fst ps). h \<le> 1080" using each by simp
  ultimately show ?thesis using ps(1) ps(4) ps(5) by blast
qed

theorem catalog_heights_witness:
  "\<exists>out hs. get_available_formats \<lparr>formats = Some
        [\<lparr>vcodec = Some ''vp9'', height = Some 360, format_note = Some ''360p'',
           ext = Some ''webm'', filesize = Some 3145728\<rparr>,
         \<lparr>vcodec = Some ''none'', height = None, format_note = Some ''audio only'',
           ext = Some ''m4a'', filesize = None\<rparr>,
         \<lparr>vcodec = Some ''avc1'', height = Some 1440, format_note = None,
           ext = Some ''mp4'', filesize = None\<rparr>,
         \<lparr>vcodec = Some ''avc1'', height = Some 480, format_note = None,
           ext = Some ''mp4'', filesize = None\<rparr>]\<rparr> = Inr out
      \<and> out = [\<lparr>quality = ''480p'', format = ''MP4'', note_str = [], size_str = []\<rparr>,
               \<lparr>quality = ''360p'', format = ''WEBM'', note_str = ''360p'', size_str = '' (3 MB)''\<rparr>]
      \<and> map quality out = map (\<lambda>h. str_int h @ ''p'') hs
      \<and> map quality_key out = map Some hs
      \<and> distinct hs \<and> (\<forall>h \<in> set hs. h \<le> 1080) \<and> sorted_wrt (>) hs"
proof -
  let ?info = "\<lparr>formats = Some
        [\<lparr>vcodec = Some ''vp9'', height = Some 360, format_note = Some ''360p'',
           ext = Some ''webm'', filesize = Some 3145728\<rparr>,
         \<lparr>vcodec = Some ''none'', height = None, format_note = Some ''audio only'',
           ext = Some ''m4a'', filesize = None\<rparr>,
         \<lparr>vcodec = Some ''avc1'', height = Some 1440, format_note = None,
           ext = Some ''mp4'', filesize = None\<rparr>,
         \<lparr>vcodec = Some ''avc1'', height = Some 480, format_note = None,
           ext = Some ''mp4'', filesize = None\<rparr>]\<rparr>"
  have v: "get_available_formats ?info =
      Inr [\<lparr>quality = ''480p'', format = ''MP4'', note_str = [], size_str = []\<rparr>,
           \<lparr>quality = ''360p'', format = ''WEBM'', note_str = ''360p'', size_str = '' (3 MB)''\<rparr>]"
    by code_simp
  from catalog_heights [of ?info] obtain out hs where
      "get_available_formats ?info = Inr out"
      "map quality out = map (\<lambda>h. str_int h @ ''p'') hs"
      "map quality_key out = map Some hs"
      "distinct hs" "\<forall>h \<in> set hs. h \<le> 1080" "sorted_wrt (>) hs"
    by blast
  with v show ?thesis by auto
qed

text \<open>
  Claim C2. For four raw formats of heights 720, 1080, 720 and 2160, each with a video
  track, the catalog is exactly two entries: the one built from the 1080 format, labelled
  \<open>1080p\<close>, then the one built from the first 720 format, labelled \<open>720p\<close>; the 2160
  format and the second 720 format are dropped.
\<close>

theorem catalog_example:
  assumes "height f1 = Some 720" "height f2 = Some 1080" "height f3 = Some 720"
      "height f4 = Some 2160"
    and "vcodec f1 \<noteq> Some ''none''" "vcodec f2 \<noteq> Some ''none''"
      "vcodec f3 \<noteq> Some ''none''" "vcodec f4 \<noteq> Some ''none''"
  shows "get_available_formats \<lparr>formats = Some [f1, f2, f3, f4]\<rparr>
           = Inr [make_option f2, make_option f1]
         \<and> quality (make_option f2) = ''1080p'' \<and> quality (make_option f1) = ''720p''"
proof -
  have c: "collect [f1, f2, f3, f4] [] {} = [make_option f1, make_option f2]"
    using assms by (simp add: truthy_def)
  have k: "quality_key (make_option f1) = Some 720" "quality_key (make_option f2) = Some 1080"
    using assms by (simp_all add: quality_key_make_option)
  have s: "sort_by_quality [make_option f1, make_option f2] = Inr [make_option f2, make_option f1]"
    by (simp add: sort_by_quality_def k)
  have "str_int 1080 = ''1080''" "str_int 720 = ''720''" by code_simp+
  then have q: "quality (make_option f2) = ''1080p''" "quality (make_option f1) = ''720p''"
    using assms(1,2) by (simp_all add: make_option_def)
  have "get_available_formats \<lparr>formats = Some [f1, f2, f3, f4]\<rparr>
      = sort_by_quality (collect [f1, f2, f3, f4] [] {})"
    by (simp add: get_available_formats_def del: collect.simps)
  then have "get_available_formats \<lparr>formats = Some [f1, f2, f3, f4]\<rparr>
      = Inr [make_option f2, make_option f1]"
    by (simp only: c s)
  with q show ?thesis by simp
qed

theorem catalog_example_witness:
  "get_available_formats \<lparr>formats = Some
       [\<lparr>vcodec = Some ''avc1'', height = Some 720, format_note = Some ''720p'',
          ext = Some ''mp4'', filesize = Some 52428800\<rparr>,
        \<lparr>vcodec = Some ''avc1'', height = Some 1080, format_note = Some ''1080p'',
          ext = Some ''mp4'', filesize = None\<rparr>,
        \<lparr>vcodec = Some ''vp9'', height = Some 720, format_note = Some ''720p'',
          ext = Some ''webm'', filesize = None\<rparr>,
        \<lparr>vcodec = Some ''vp9'', height = Some 2160, format_note = Some ''2160p'',
          ext = Some ''webm'', filesize = None\<rparr>]\<rparr>
     = Inr [\<lparr>quality = ''1080p'', format = ''MP4'', note_str = ''1080p'', size_str = []\<rparr>,
            \<lparr>quality = ''720p'', format = ''MP4'', note_str = ''720p'', size_str = '' (50 MB)''\<rparr>]"
proof -
  let ?f1 = "\<lparr>vcodec = Some ''avc1'', height = Some 720, format_note = Some ''720p'',
          ext = Some ''mp4'', filesize = Some 52428800\<rparr>"
  let ?f2 = "\<lparr>vcodec = Some ''avc1'', height = Some 1080, format_note = Some ''1080p'',
          ext = Some ''mp4'', filesize = None\<rparr>"
  let ?f3 = "\<lparr>vcodec = Some ''vp9'', height = Some 720, format_note = Some ''720p'',
          ext = Some ''webm'', filesize = None\<rparr>"
  let ?f4 = "\<lparr>vcodec = Some ''vp9'', height = Some 2160, format_note = Some ''2160p'',
          ext = Some ''webm'', filesize = None\<rparr>"
  have m2: "make_option ?f2
      = \<lparr>quality = ''1080p'', format = ''MP4'', note_str = ''1080p'', size_str = []\<rparr>"
    by code_simp
  have m1: "make_option ?f1
      = \<lparr>quality = ''720p'', format = ''MP4'', note_str = ''720p'', size_str = '' (50 MB)''\<rparr>"
    by code_simp
  have "get_available_formats \<lparr>formats = Some [?f1, ?f2, ?f3, ?f4]\<rparr>
      = Inr [make_option ?f2, make_option ?f1]"
    using catalog_example [of ?f1 ?f2 ?f3 ?f4] by simp
  then show ?thesis by (simp only: m1 m2)
qed

text \<open>
  Claim C10. A metadata structure without the key \<open>formats\<close>, or with an empty format
  list, gives the empty catalog and no exception.
\<close>

theorem catalog_empty:
  "formats info = None \<or> formats info = Some [] \<Longrightarrow> get_available_formats info = Inr []"
  by (auto simp: get_available_formats_def sort_by_quality_def)

theorem catalog_empty_witness:
  "get_available_formats \<lparr>formats = None\<rparr> = Inr []
   \<and> get_available_formats \<lparr>formats = Some []\<rparr> = Inr []"
  using catalog_empty [of "\<lparr>formats = None\<rparr>"] catalog_empty [of "\<lparr>formats = Some []\<rparr>"]
  by simp

lemma size_mb_cases:
  "size_mb fs = (case fs of None \<Rightarrow> [] | Some n \<Rightarrow>
      if n = 0 then [] else '' ('' @ str_int (n div (1024 * 1024)) @ '' MB)'')"
  by (simp add: size_mb_def truthy_def split: option.split)

text \<open>
  Claim C3, as stated, fails: for a format of 5242880 bytes the size field is the string
  \<open> (5 MB)\<close>, with a leading space and parentheses, not \<open>5 MB\<close>; and for a format whose
  file size is known to be 0 the size field is empty, not \<open>0 MB\<close>.
\<close>

theorem size_label_counterexample:
  "get_available_formats \<lparr>formats = Some
       [\<lparr>vcodec = Some ''avc1'', height = Some 720, format_note = None,
          ext = Some ''mp4'', filesize = Some 5242880\<rparr>,
        \<lparr>vcodec = Some ''avc1'', height = Some 480, format_note = None,
          ext = Some ''mp4'', filesize = Some 0\<rparr>]\<rparr>
     = Inr [\<lparr>quality = ''720p'', format = ''MP4'', note_str = [], size_str = '' (5 MB)''\<rparr>,
            \<lparr>quality = ''480p'', format = ''MP4'', note_str = [], size_str = []\<rparr>]
   \<and> '' (5 MB)'' \<noteq> ''5 MB'' \<and> [] \<noteq> ''0 MB''"
  by code_simp

text \<open>
  Claim C3, amended. Every entry of the catalog is built from one of the raw formats, and
  its size field is a space followed by \<open>(N MB)\<close>, where \<open>N\<close> is the file size divided by
  \<open>1024 * 1024\<close> and rounded down, when the file size is present and not zero; it is the
  empty string when the file size is absent or zero.
\<close>

theorem size_label:
  "\<exists>out. get_available_formats info = Inr out
     \<and> (\<forall>x \<in> set out. \<exists>f.
            f \<in> (case formats info of None \<Rightarrow> {} | Some fs \<Rightarrow> set fs)
          \<and> x = make_option f
          \<and> size_str x = (case filesize f of None \<Rightarrow> [] | Some n \<Rightarrow>
               if n = 0 then [] else '' ('' @ str_int (n div (1024 * 1024)) @ '' MB)''))"
proof -
  from catalog_shape [of info] obtain ks ps where ps:
      "get_available_formats info = Inr (map snd ps)"
      "set ps = (\<lambda>f. (the (height f), make_option f)) ` set ks"
      "set ks \<subseteq> (case formats info of None \<Rightarrow> {} | Some fs \<Rightarrow> set fs)"
    by blast
  have "\<forall>x \<in> set (map snd ps). \<exists>f.
            f \<in> (case formats info of None \<Rightarrow> {} | Some fs \<Rightarrow> set fs)
          \<and> x = make_option f
          \<and> size_str x = (case filesize f of None \<Rightarrow> [] | Some n \<Rightarrow>
               if n = 0 then [] else '' ('' @ str_int (n div (1024 * 1024)) @ '' MB)'')"
  proof
    fix x assume "x \<in> set (map snd ps)"
    then obtain f where f: "f \<in> set ks" "x = make_option f" using ps(2) by auto
    have "size_str x = size_mb (filesize f)" by (simp add: f(2) make_option_def)
    then show "\<exists>f. f \<in> (case formats info of None \<Rightarrow> {} | Some fs \<Rightarrow> set fs)
          \<and> x = make_option f
          \<and> size_str x = (case filesize f of None \<Rightarrow> [] | Some n \<Rightarrow>
               if n = 0 then [] else '' ('' @ str_int (n div (1024 * 1024)) @ '' MB)'')"
      using f ps(3) size_mb_cases [of "filesize f"] by auto
  qed
  with ps(1) show ?thesis by blast
qed

theorem size_label_witness:
  "\<exists>out. get_available_formats \<lparr>formats = Some
         [\<lparr>vcodec = Some ''vp9'', height = Some 240, format_note = None,
            ext = Some ''webm'', filesize = Some 1572864\<rparr>,
          \<lparr>vcodec = Some ''avc1'', height = Some 144, format_note = None,
            ext = Some ''mp4'', filesize = None\<rparr>]\<rparr> = Inr out
     \<and> (\<forall>x \<in> set out. \<exists>f.
            f \<in> set [\<lparr>vcodec = Some ''vp9'', height = Some 240, format_note = None,
                        ext = Some ''webm'', filesize = Some 1572864\<rparr>,
                      \<lparr>vcodec = Some ''avc1'', height = Some 144, format_note = None,
                        ext = Some ''mp4'', filesize = None\<rparr>]
          \<and> x = make_option f
          \<and> size_str x = (case filesize f of None \<Rightarrow> [] | Some n \<Rightarrow>
               if n = 0 then [] else '' ('' @ str_int (n div (1024 * 1024)) @ '' MB)''))"
  using size_label [of "\<lparr>formats = Some
         [\<lparr>vcodec = Some ''vp9'', height = Some 240, format_note = None,
            ext = Some ''webm'', filesize = Some 1572864\<rparr>,
          \<lparr>vcodec = Some ''avc1'', height = Some 144, format_note = None,
            ext = Some ''mp4'', filesize = None\<rparr>]\<rparr>"]
  by simp

section \<open>Properties of the download orchestrator\<close>

lemma selector_height:
  "format_selector (str_int h @ ''p'')
     = ''bestvideo[height<='' @ str_int h @ '']+bestaudio/best[height<='' @ str_int h @ '']''"
proof -
  have "last (str_int h @ ''p'') \<noteq> last ''best''" by simp
  then have "str_int h @ ''p'' \<noteq> ''best''" by metis
  then show ?thesis
    by (simp add: format_selector_def Let_def replace_p_snoc str_int_no_p del: append.simps)
qed

text \<open>
  Claim C4. For the quality \<open>best\<close> the format option handed to the library is
  \<open>bestvideo[height<=1080]+bestaudio/best[height<=1080]\<close>: video and audio streams
  combined, the video at most 1080 high, else the best single file at most 1080 high.
  For a quality \<open><h>p\<close>, \<open>h\<close> an integer in decimal, the expression has the same shape
  with \<open>h\<close> in the place of 1080.
\<close>

theorem selector_expression:
  "opt_format (download_opts ''best'') = ''bestvideo[height<=1080]+bestaudio/best[height<=1080]''
   \<and> opt_format (download_opts (str_int h @ ''p''))
       = ''bestvideo[height<='' @ str_int h @ '']+bestaudio/best[height<='' @ str_int h @ '']''"
proof -
  have "opt_format (download_opts ''best'')
      = ''bestvideo[height<=1080]+bestaudio/best[height<=1080]''"
    by (simp add: download_opts_def format_selector_def)
  moreover have "opt_format (download_opts (str_int h @ ''p''))
       = ''bestvideo[height<='' @ str_int h @ '']+bestaudio/best[height<='' @ str_int h @ '']''"
    by (simp only: download_opts_def selector_height ydl_opts.simps)
  ultimately show ?thesis by blast
qed

lemma replace_all_match:
  "old \<noteq> [] \<Longrightarrow> xs \<noteq> [] \<Longrightarrow> take (length old) xs = old
     \<Longrightarrow> replace_all old new xs = new @ replace_all old new (drop (length old) xs)"
  by (cases xs) (simp_all add: replace_all.simps)

lemma replace_all_nomatch:
  "old \<noteq> [] \<Longrightarrow> take (length old) (c # cs) \<noteq> old
     \<Longrightarrow> replace_all old new (c # cs) = c # replace_all old new cs"
  by (simp add: replace_all.simps)

lemma replace_all_suffix:
  assumes d: "d \<notin> set p"
  shows "\<exists>u. replace_all (d # p) new (t @ d # s) = u @ replace_all (d # p) new (d # s)"
proof (induction t rule: length_induct)
  case (1 t)
  show ?case
  proof (cases t)
    case Nil
    then show ?thesis by simp
  next
    case (Cons c cs)
    show ?thesis
    proof (cases "take (length (d # p)) (t @ d # s) = d # p")
      case True
      have len: "length (d # p) \<le> length t"
      proof (rule ccontr)
        assume "\<not> length (d # p) \<le> length t"
        then have lt: "length t < length (d # p)" by simp
        have "take (length (d # p)) (t @ d # s) ! length t = (t @ d # s) ! length t"
          using lt by (rule nth_take)
        then have "(d # p) ! length t = d" using True by simp
        moreover have "0 < length t" using Cons by simp
        ultimately have "p ! (length t - 1) = d" by (simp add: nth_Cons')
        moreover have "length t - 1 < length p" using lt Cons by simp
        ultimately show False using d nth_mem by metis
      qed
      then have dr: "drop (length (d # p)) (t @ d # s) = drop (length (d # p)) t @ d # s"
        by simp
      have "length (drop (length (d # p)) t) < length t" using Cons by simp
      with "1.IH" obtain u where u:
        "replace_all (d # p) new (drop (length (d # p)) t @ d # s)
           = u @ replace_all (d # p) new (d # s)"
        by blast
      have "replace_all (d # p) new (t @ d # s)
          = new @ replace_all (d # p) new (drop (length (d # p)) (t @ d # s))"
        using True by (intro replace_all_match) simp_all
      then have "replace_all (d # p) new (t @ d # s)
          = (new @ u) @ replace_all (d # p) new (d # s)"
        by (simp only: dr u append_assoc)
      then show ?thesis by blast
    next
      case False
      have "length cs < length t" using Cons by simp
      with "1.IH" obtain u where u:
        "replace_all (d # p) new (cs @ d # s) = u @ replace_all (d # p) new (d # s)"
        by blast
      have "take (length (d # p)) (c # (cs @ d # s)) \<noteq> d # p" using False Cons by simp
      then have "replace_all (d # p) new (c # (cs @ d # s))
          = c # replace_all (d # p) new (cs @ d # s)"
        by (intro replace_all_nomatch) simp_all
      then have "replace_all (d # p) new (t @ d # s)
          = (c # u) @ replace_all (d # p) new (d # s)"
        using Cons by (simp only: u append_Cons)
      then show ?thesis by blast
    qed
  qed
qed

lemma final_filename_suffix:
  assumes "e = ''.webm'' \<or> e = ''.mkv'' \<or> e = ''.mp4''"
  shows "\<exists>u. final_filename (t @ e) = u @ ''.mp4''"
proof -
  have w1: "replace_all ''.webm'' ''.mp4'' ''.webm'' = ''.mp4''" by code_simp
  have w2: "replace_all ''.webm'' ''.mp4'' ''.mkv'' = ''.mkv''" by code_simp
  have w3: "replace_all ''.webm'' ''.mp4'' ''.mp4'' = ''.mp4''" by code_simp
  have m1: "replace_all ''.mkv'' ''.mp4'' ''.mkv'' = ''.mp4''" by code_simp
  have m2: "replace_all ''.mkv'' ''.mp4'' ''.mp4'' = ''.mp4''" by code_simp
  obtain e' where e': "replace_all ''.webm'' ''.mp4'' e = e'" "e' = ''.mp4'' \<or> e' = ''.mkv''"
    using assms w1 w2 w3 by blast
  obtain s where e: "e = CHR ''.'' # s" using assms by blast
  have "\<exists>u. replace_all ''.webm'' ''.mp4'' (t @ CHR ''.'' # s)
      = u @ replace_all ''.webm'' ''.mp4'' (CHR ''.'' # s)"
    by (rule replace_all_suffix) simp
  then obtain u where u: "replace_all ''.webm'' ''.mp4'' (t @ e) = u @ e'"
    using e e'(1) by blast
  obtain s' where s': "e' = CHR ''.'' # s'" using e'(2) by blast
  have "\<exists>v. replace_all ''.mkv'' ''.mp4'' (u @ CHR ''.'' # s')
      = v @ replace_all ''.mkv'' ''.mp4'' (CHR ''.'' # s')"
    by (rule replace_all_suffix) simp
  moreover have "replace_all ''.mkv'' ''.mp4'' e' = ''.mp4''"
    using e'(2) m1 m2 by blast
  ultimately obtain v where v: "replace_all ''.mkv'' ''.mp4'' (u @ e') = v @ ''.mp4''"
    using s' by metis
  have "final_filename (t @ e) = v @ ''.mp4''"
    by (simp only: final_filename_def u v)
  then show ?thesis by blast
qed

text \<open>
  What the two replacements do reach: when the download succeeds and the prepared file
  name ends in \<open>.webm\<close>, \<open>.mkv\<close> or \<open>.mp4\<close>, the returned path ends in \<open>.mp4\<close>. This
  says nothing of the part before the ending, which the replacements may rewrite too.
\<close>

lemma final_path_known_endings:
  assumes "extract_info (download_opts q) url new_progress = (Inr info, t)"
    and "prepare_filename info = s @ e"
    and "e = ''.webm'' \<or> e = ''.mkv'' \<or> e = ''.mp4''"
  shows "\<exists>u. download_video extract_info prepare_filename url q = (Inr (u @ ''.mp4'', info), t)"
proof -
  from final_filename_suffix [OF assms(3), of s] obtain u where
    "final_filename (s @ e) = u @ ''.mp4''" by blast
  then show ?thesis using assms(1,2) by (simp add: download_video_def)
qed

text \<open>
  Claim C5. The returned path should end in \<open>.mp4\<close> for every downloaded item, since
  every download is converted to that container. The code does not do so: with a
  library that succeeds and prepares the name \<open>clip.flv\<close>, \<open>download_video\<close> returns
  \<open>clip.flv\<close>, whose last four characters are \<open>.flv\<close>; the name \<open>clip.3gp\<close> is returned
  unchanged as well. The replacements also act inside the title: \<open>my.webmaster.mkv\<close>
  becomes \<open>my.mp4aster.mp4\<close>.
\<close>

theorem final_path_not_normalized:
  "download_video (\<lambda>opts url t. (Inr (0::nat) :: error + nat, t)) (\<lambda>i. ''clip.flv'')
       ''https://example.org/v'' ''best'' = (Inr (''clip.flv'', 0), new_progress)
   \<and> drop 4 ''clip.flv'' = ''.flv''
   \<and> final_filename ''clip.3gp'' = ''clip.3gp''
   \<and> final_filename ''my.webmaster.mkv'' = ''my.mp4aster.mp4''"
proof -
  have 1: "final_filename ''clip.flv'' = ''clip.flv''" by code_simp
  have 2: "final_filename ''clip.3gp'' = ''clip.3gp''" by code_simp
  have 3: "final_filename ''my.webmaster.mkv'' = ''my.mp4aster.mp4''" by code_simp
  show ?thesis by (simp add: download_video_def 1 2 3)
qed

section \<open>Properties of the float operations\<close>




lemma ilog2_upper:
  assumes "0 < x"
  shows "x < 2 powi (ilog2 x + 1)"
proof -
  obtain a b where ab: "quotient_of x = (a, b)" by (cases "quotient_of x")
  have b: "0 < b" using ab quotient_of_denom_pos by blast
  have x: "x = of_int a / of_int b" using ab by (rule quotient_of_div)
  have a: "0 < a" using assms b x by (simp add: zero_less_divide_iff)
  let ?e = "bitlen a - bitlen b"
  show ?thesis
  proof (cases "2 powi ?e \<le> x")
    case False
    then show ?thesis by (simp add: ilog2_def ab)
  next
    case True
    have la: "0 \<le> bitlen a" by (rule bitlen_nonneg)
    have lb: "1 \<le> bitlen b" using b bitlen_eq_zero_iff [of b] bitlen_nonneg [of b] by linarith
    have "a < (2::int) ^ nat (bitlen a)" using bitlen_bounds [OF a] by blast
    then have "(of_int a :: rat) < of_int ((2::int) ^ nat (bitlen a))"
      by (simp only: of_int_less_iff)
    then have 1: "(of_int a :: rat) < 2 powi (bitlen a)"
      using la by (simp add: power_int_def)
    have "(2::int) ^ nat (bitlen b - 1) \<le> b" using bitlen_bounds [OF b] by blast
    then have "(of_int ((2::int) ^ nat (bitlen b - 1)) :: rat) \<le> of_int b"
      by (simp only: of_int_le_iff)
    then have 2: "(2::rat) powi (bitlen b - 1) \<le> of_int b"
      using lb by (simp add: power_int_def)
    have p: "(0::rat) < 2 powi (bitlen b - 1)" by simp
    have eq: "bitlen a - (bitlen b - 1) = ?e + 1" by simp
    have "of_int a / of_int b < (2::rat) powi (bitlen a) / of_int b"
      using 1 b by (simp add: divide_strict_right_mono)
    also have "\<dots> \<le> 2 powi (bitlen a) / 2 powi (bitlen b - 1)"
      using 2 p by (intro divide_left_mono) (simp_all add: zero_less_mult_iff b)
    also have "\<dots> = 2 powi (bitlen a - (bitlen b - 1))"
      by (rule power_int_diff [symmetric]) simp
    also have "\<dots> = 2 powi (?e + 1)"
      by (simp only: eq)
    finally have "x < 2 powi (?e + 1)" using x by simp
    then show ?thesis using True by (simp add: ilog2_def ab)
  qed
qed




section \<open>Properties of the progress mirror\<close>

text \<open>
  Claim C6. After an event of status \<open>finished\<close> the hook has raised nothing, the
  percentage is 100.0 and the status is \<open>finished\<close>, whatever the tracker held before.
\<close>

theorem finished_event:
  assumes "d_status d = Some ''finished''"
  shows "fst (progress_hook d t) = None
       \<and> percentage (snd (progress_hook d t)) = Finite 100
       \<and> status (snd (progress_hook d t)) = ''finished''"
  using assms by (simp add: progress_hook_def)

theorem finished_event_witness:
  "fst (progress_hook
          \<lparr>d_status = Some ''finished'', d_downloaded_bytes = Some 4096, d_total_bytes = None,
             d_total_bytes_estimate = None, d_speed = None, d_eta = None\<rparr>
          \<lparr>downloaded_bytes = 900, total_bytes = 300, speed = 0, eta = 7,
             percentage = Finite 300, status = ''downloading''\<rparr>) = None
   \<and> percentage (snd (progress_hook
          \<lparr>d_status = Some ''finished'', d_downloaded_bytes = Some 4096, d_total_bytes = None,
             d_total_bytes_estimate = None, d_speed = None, d_eta = None\<rparr>
          \<lparr>downloaded_bytes = 900, total_bytes = 300, speed = 0, eta = 7,
             percentage = Finite 300, status = ''downloading''\<rparr>)) = Finite 100
   \<and> status (snd (progress_hook
          \<lparr>d_status = Some ''finished'', d_downloaded_bytes = Some 4096, d_total_bytes = None,
             d_total_bytes_estimate = None, d_speed = None, d_eta = None\<rparr>
          \<lparr>downloaded_bytes = 900, total_bytes = 300, speed = 0, eta = 7,
             percentage = Finite 300, status = ''downloading''\<rparr>)) = ''finished''"
  using finished_event
    [of "\<lparr>d_status = Some ''finished'', d_downloaded_bytes = Some 4096, d_total_bytes = None,
             d_total_bytes_estimate = None, d_speed = None, d_eta = None\<rparr>"
        "\<lparr>downloaded_bytes = 900, total_bytes = 300, speed = 0, eta = 7,
             percentage = Finite 300, status = ''downloading''\<rparr>"]
  by simp




section \<open>Properties of the formatting functions\<close>

text \<open>
  Claim C8. \<open>format_bytes(0)\<close> is \<open>0 B\<close>, \<open>format_bytes(1536)\<close> is \<open>1.5 KB\<close> and
  \<open>format_bytes(1073741824)\<close> is \<open>1.0 GB\<close>.
\<close>

theorem format_bytes_examples:
  "format_bytes 0 = Inr ''0 B'' \<and> format_bytes 1536 = Inr ''1.5 KB''
   \<and> format_bytes 1073741824 = Inr ''1.0 GB''"
proof -
  have "format_bytes 0 = Inr ''0 B''" by code_simp
  moreover have "format_bytes 1536 = Inr ''1.5 KB''" by code_simp
  moreover have "format_bytes 1073741824 = Inr ''1.0 GB''" by code_simp
  ultimately show ?thesis by blast
qed

text \<open>
  Claim C9. \<open>format_time(0)\<close> is \<open>Unknown\<close>, \<open>format_time(65)\<close> is \<open>01:05\<close> and
  \<open>format_time(3725)\<close> is \<open>01:02:05\<close>.
\<close>

theorem format_time_examples:
  "format_time 0 = ''Unknown'' \<and> format_time 65 = ''01:05'' \<and> format_time 3725 = ''01:02:05''"
proof -
  have "format_time 0 = ''Unknown''" by code_simp
  moreover have "format_time 65 = ''01:05''" by code_simp
  moreover have "format_time 3725 = ''01:02:05''" by code_simp
  ultimately show ?thesis by blast
qed

end
